theory Spec2Isabelle
  imports Main "HOL-Library.Sublist"
begin

section \<open>JavaScript values and the operations the route handler applies to them\<close>

text \<open>
  The webhook route (\<^verbatim>\<open>src/app/api/webhook/route.ts\<close>) receives whatever JSON the
  caller posts: the TypeScript interfaces are erased at run time. A value is therefore
  modelled as JavaScript has it, with \<open>Undefined\<close> for a property that is not there.
  Numbers are only ever tested for being zero by this code. Strings are lists of
  characters; an object is the list of its own properties, read with \<open>map_of\<close>.
\<close>

datatype js =
    Undefined
  | Null
  | Bool bool
  | Num int
  | Str string
  | Arr "js list"
  | Obj "(string \<times> js) list"

text \<open>What a \<^verbatim>\<open>throw\<close> carries; only the fact that something was thrown is observed.\<close>

datatype exn = TypeError | SyntaxError | NetworkError

text \<open>
  Property access \<^verbatim>\<open>v.k\<close>. Reading a property of \<^verbatim>\<open>undefined\<close> or \<^verbatim>\<open>null\<close> throws.
  The handler reads the names \<^verbatim>\<open>object\<close>, \<^verbatim>\<open>entry\<close>, \<^verbatim>\<open>changes\<close>, \<^verbatim>\<open>field\<close>,
  \<^verbatim>\<open>value\<close>, \<^verbatim>\<open>text\<close>, \<^verbatim>\<open>comment_id\<close> and \<^verbatim>\<open>error\<close>; none of them is inherited from
  a prototype, so on a primitive or an array the result is \<^verbatim>\<open>undefined\<close>.
\<close>

fun get :: "js \<Rightarrow> string \<Rightarrow> exn + js" where
  "get Undefined k = Inl TypeError"
| "get Null k = Inl TypeError"
| "get (Obj ps) k = Inr (case map_of ps k of None \<Rightarrow> Undefined | Some v \<Rightarrow> v)"
| "get v k = Inr Undefined"

text \<open>Truthiness, as \<^verbatim>\<open>!x\<close> and \<^verbatim>\<open>x || y\<close> test it.\<close>

fun truthy :: "js \<Rightarrow> bool" where
  "truthy Undefined = False"
| "truthy Null = False"
| "truthy (Bool b) = b"
| "truthy (Num n) = (n \<noteq> 0)"
| "truthy (Str s) = (s \<noteq> [])"
| "truthy (Arr xs) = True"
| "truthy (Obj ps) = True"

text \<open>\<^verbatim>\<open>x ?? y\<close> replaces only \<^verbatim>\<open>null\<close> and \<^verbatim>\<open>undefined\<close>.\<close>

fun nullish :: "js \<Rightarrow> bool" where
  "nullish Undefined = True"
| "nullish Null = True"
| "nullish v = False"

text \<open>
  \<^verbatim>\<open>x === 'literal'\<close>: equality of primitives; a parsed array or object is never the
  same reference as anything it is compared with here.
\<close>

fun strict_equals :: "js \<Rightarrow> js \<Rightarrow> bool" where
  "strict_equals (Arr xs) w = False"
| "strict_equals (Obj ps) w = False"
| "strict_equals v w = (v = w)"

text \<open>
  \<^verbatim>\<open>for (const x of v)\<close>: an array yields its elements, a string its characters (each
  a one-character string), anything else is not iterable.
\<close>

fun iterate :: "js \<Rightarrow> exn + js list" where
  "iterate (Arr xs) = Inr xs"
| "iterate (Str s) = Inr (map (\<lambda>c. Str [c]) s)"
| "iterate v = Inl TypeError"

text \<open>
  \<^verbatim>\<open>String.prototype.toLowerCase\<close> on the letters A to Z. Characters outside ASCII are
  left as they are: no such character lowers to a letter of the keyword.
\<close>

definition toLowerCase_char :: "char \<Rightarrow> char" where
  "toLowerCase_char c =
     (let n = (of_char c :: nat) in if 65 \<le> n \<and> n \<le> 90 then char_of (n + 32) else c)"

text \<open>
  \<^verbatim>\<open>rawText.toLowerCase()\<close>: only a string has the method; on any other (truthy) value
  the property is \<^verbatim>\<open>undefined\<close> or a parsed, non-callable value, and the call throws.
\<close>

fun toLowerCase :: "js \<Rightarrow> exn + string" where
  "toLowerCase (Str s) = Inr (map toLowerCase_char s)"
| "toLowerCase v = Inl TypeError"

text \<open>\<^verbatim>\<open>String.prototype.includes\<close>: does the needle occur at some position?\<close>

fun includes_str :: "string \<Rightarrow> string \<Rightarrow> bool" where
  "includes_str [] needle = (needle = [])"
| "includes_str (c # cs) needle = (prefix needle (c # cs) \<or> includes_str cs needle)"

text \<open>
  String interpolation \<^verbatim>\<open>${v}\<close> converts \<open>v\<close> to a string. For a parsed object that
  has an own property \<^verbatim>\<open>toString\<close> (never callable) the conversion throws; an array
  joins the conversions of its elements.
\<close>

fun interpolation_throws :: "js \<Rightarrow> bool" where
  "interpolation_throws (Obj ps) = (map_of ps ''toString'' \<noteq> None)"
| "interpolation_throws (Arr xs) = list_ex interpolation_throws xs"
| "interpolation_throws v = False"

section \<open>Configuration, requests, responses and effects\<close>

text \<open>The two values read from \<^verbatim>\<open>process.env\<close>; \<open>None\<close> is a variable that is not set.\<close>

record env =
  VERIFY_TOKEN :: "string option"
  PAGE_ACCESS_TOKEN :: "string option"

definition js_of_env :: "string option \<Rightarrow> js" where
  "js_of_env v = (case v of None \<Rightarrow> Undefined | Some s \<Rightarrow> Str s)"

text \<open>\<^verbatim>\<open>new NextResponse(body, { status })\<close>; the body may be \<^verbatim>\<open>null\<close>.\<close>

record response =
  status :: nat
  resp_body :: "string option"

text \<open>The arguments of one \<^verbatim>\<open>fetch\<close> call; \<open>req_body\<close> is the value given to \<^verbatim>\<open>JSON.stringify\<close>.\<close>

record http_request =
  url :: string
  http_method :: string
  headers :: "(string \<times> string) list"
  req_body :: js

datatype log_line =
    Webhook_Verified
  | Missing_Token
  | Skipping_Comment
  | Keyword_Found js js
  | Crash_Error exn
  | Meta_API_Error js
  | DM_Sent
  | Network_Fetch_Error exn

text \<open>What a handler does to the outside, in the order it does it.\<close>

datatype effect =
    Read_Body
  | Fetch http_request
  | Console log_line

type_synonym trace = "effect list"

fun fetches :: "trace \<Rightarrow> http_request list" where
  "fetches [] = []"
| "fetches (Fetch r # es) = r # fetches es"
| "fetches (e # es) = fetches es"

text \<open>
  The outbound transport is outside the program. One call either fails in \<^verbatim>\<open>fetch\<close>,
  or answers with a body that \<^verbatim>\<open>response.json()\<close> rejects, or answers with JSON. The
  outcome may depend on every request sent so far, the current one last.
\<close>

datatype fetch_outcome =
    Fetch_Rejects exn
  | Json_Rejects exn
  | Json_Body js

type_synonym transport = "http_request list \<Rightarrow> fetch_outcome"

definition always :: "fetch_outcome \<Rightarrow> transport" where
  "always r history = r"

section \<open>The GET handler (verification)\<close>

text \<open>\<^verbatim>\<open>searchParams.get(name)\<close>: the first value of the name, or \<^verbatim>\<open>null\<close>.\<close>

definition searchParams_get :: "(string \<times> string) list \<Rightarrow> string \<Rightarrow> js" where
  "searchParams_get ps k = (case map_of ps k of None \<Rightarrow> Null | Some v \<Rightarrow> Str v)"

definition nullable_body :: "js \<Rightarrow> string option" where
  "nullable_body v = (case v of Str s \<Rightarrow> Some s | _ \<Rightarrow> None)"

definition GET :: "env \<Rightarrow> (string \<times> string) list \<Rightarrow> trace \<Rightarrow> response \<times> trace" where
  "GET e searchParams tr =
     (let mode = searchParams_get searchParams ''hub.mode'';
          token = searchParams_get searchParams ''hub.verify_token'';
          challenge = searchParams_get searchParams ''hub.challenge''
      in if strict_equals mode (Str ''subscribe'')
            \<and> strict_equals token (js_of_env (VERIFY_TOKEN e))
         then (\<lparr>status = 200, resp_body = nullable_body challenge\<rparr>,
               tr @ [Console Webhook_Verified])
         else (\<lparr>status = 403, resp_body = Some ''Forbidden''\<rparr>, tr))"

section \<open>The reply dispatcher\<close>

text \<open>
  The source file holds the route twice; the second copy differs from the first in its
  comments and in naming version \<^verbatim>\<open>v24.0\<close> of the Graph API in the URL.
\<close>

definition graph_api_version :: string where
  "graph_api_version = ''v21.0''"

definition reply_text :: string where
  "reply_text = ''Hey! '' @ [CHR 0xF0, CHR 0x9F, CHR 0x91, CHR 0x8B]
     @ '' Here is the link to the roadmap you asked for: https://ontheorbit.com/roadmap''"

definition reply_request :: "env \<Rightarrow> js \<Rightarrow> http_request" where
  "reply_request e commentId =
     \<lparr>url = ''https://graph.facebook.com/'' @ graph_api_version
              @ ''/me/messages?access_token=''
              @ (case PAGE_ACCESS_TOKEN e of None \<Rightarrow> ''undefined'' | Some t \<Rightarrow> t),
      http_method = ''POST'',
      headers = [(''Content-Type'', ''application/json'')],
      req_body = Obj [(''recipient'', Obj [(''comment_id'', commentId)]),
                      (''message'', Obj [(''text'', Str reply_text)])]\<rparr>"

text \<open>The body of the \<^verbatim>\<open>try\<close> in \<^verbatim>\<open>sendPrivateReply\<close>: it can throw in three places.\<close>

definition sendPrivateReply_try ::
  "env \<Rightarrow> transport \<Rightarrow> js \<Rightarrow> trace \<Rightarrow> (exn + unit) \<times> trace" where
  "sendPrivateReply_try e net commentId tr =
     (let tr1 = tr @ [Fetch (reply_request e commentId)] in
      case net (fetches tr1) of
        Fetch_Rejects x \<Rightarrow> (Inl x, tr1)
      | Json_Rejects x \<Rightarrow> (Inl x, tr1)
      | Json_Body data \<Rightarrow>
          (case get data ''error'' of
             Inl x \<Rightarrow> (Inl x, tr1)
           | Inr err \<Rightarrow>
               if truthy err then (Inr (), tr1 @ [Console (Meta_API_Error err)])
               else (Inr (), tr1 @ [Console DM_Sent])))"

definition sendPrivateReply ::
  "env \<Rightarrow> transport \<Rightarrow> js \<Rightarrow> trace \<Rightarrow> (exn + unit) \<times> trace" where
  "sendPrivateReply e net commentId tr =
     (case sendPrivateReply_try e net commentId tr of
        (Inl x, tr') \<Rightarrow> (Inr (), tr' @ [Console (Network_Fetch_Error x)])
      | (Inr u, tr') \<Rightarrow> (Inr u, tr'))"

section \<open>The POST handler (event processing)\<close>

text \<open>A \<^verbatim>\<open>for ... of\<close> loop over the elements: a throw in the body leaves the loop.\<close>

fun for_of ::
  "('a \<Rightarrow> trace \<Rightarrow> (exn + unit) \<times> trace) \<Rightarrow> 'a list \<Rightarrow> trace \<Rightarrow> (exn + unit) \<times> trace" where
  "for_of f [] tr = (Inr (), tr)"
| "for_of f (x # xs) tr =
     (case f x tr of
        (Inl e, tr') \<Rightarrow> (Inl e, tr')
      | (Inr u, tr') \<Rightarrow> for_of f xs tr')"

text \<open>The body of the inner loop, for one \<^verbatim>\<open>change\<close>.\<close>

definition process_change ::
  "env \<Rightarrow> transport \<Rightarrow> js \<Rightarrow> trace \<Rightarrow> (exn + unit) \<times> trace" where
  "process_change e net change tr =
     (case get change ''field'' of
        Inl x \<Rightarrow> (Inl x, tr)
      | Inr fld \<Rightarrow>
          if strict_equals fld (Str ''comments'') then
            (case get change ''value'' of
               Inl x \<Rightarrow> (Inl x, tr)
             | Inr v \<Rightarrow>
                 (case get v ''text'' of
                    Inl x \<Rightarrow> (Inl x, tr)
                  | Inr rawText \<Rightarrow>
                      (case get v ''comment_id'' of
                         Inl x \<Rightarrow> (Inl x, tr)
                       | Inr commentId \<Rightarrow>
                           if \<not> truthy rawText \<or> \<not> truthy commentId
                           then (Inr (), tr @ [Console Skipping_Comment])
                           else
                             (case toLowerCase rawText of
                                Inl x \<Rightarrow> (Inl x, tr)
                              | Inr normalizedText \<Rightarrow>
                                  if includes_str normalizedText ''roadmap'' then
                                    if interpolation_throws commentId then (Inl TypeError, tr)
                                    else sendPrivateReply e net commentId
                                           (tr @ [Console (Keyword_Found rawText commentId)])
                                  else (Inr (), tr)))))
          else (Inr (), tr))"

text \<open>The body of the outer loop, for one \<^verbatim>\<open>entry\<close>.\<close>

definition process_entry ::
  "env \<Rightarrow> transport \<Rightarrow> js \<Rightarrow> trace \<Rightarrow> (exn + unit) \<times> trace" where
  "process_entry e net entry tr =
     (case get entry ''changes'' of
        Inl x \<Rightarrow> (Inl x, tr)
      | Inr ch \<Rightarrow>
          (case iterate (if nullish ch then Arr [] else ch) of
             Inl x \<Rightarrow> (Inl x, tr)
           | Inr changes \<Rightarrow> for_of (process_change e net) changes tr))"

text \<open>
  The body of the \<^verbatim>\<open>try\<close> in \<^verbatim>\<open>POST\<close>. The request is what \<^verbatim>\<open>req.json()\<close> gives:
  the parsed body, or the error it rejects with.
\<close>

definition POST_try ::
  "env \<Rightarrow> transport \<Rightarrow> exn + js \<Rightarrow> trace \<Rightarrow> (exn + response) \<times> trace" where
  "POST_try e net req tr =
     (if \<not> truthy (js_of_env (PAGE_ACCESS_TOKEN e))
      then (Inr \<lparr>status = 500, resp_body = Some ''Server Config Error''\<rparr>,
            tr @ [Console Missing_Token])
      else
        (case req of
           Inl x \<Rightarrow> (Inl x, tr @ [Read_Body])
         | Inr body \<Rightarrow>
             (case get body ''object'' of
                Inl x \<Rightarrow> (Inl x, tr @ [Read_Body])
              | Inr ob \<Rightarrow>
                  if strict_equals ob (Str ''instagram'') then
                    (case get body ''entry'' of
                       Inl x \<Rightarrow> (Inl x, tr @ [Read_Body])
                     | Inr en \<Rightarrow>
                         (case iterate (if truthy en then en else Arr []) of
                            Inl x \<Rightarrow> (Inl x, tr @ [Read_Body])
                          | Inr entries \<Rightarrow>
                              (case for_of (process_entry e net) entries (tr @ [Read_Body]) of
                                 (Inl x, tr') \<Rightarrow> (Inl x, tr')
                               | (Inr u, tr') \<Rightarrow>
                                   (Inr \<lparr>status = 200, resp_body = Some ''EVENT_RECEIVED''\<rparr>,
                                    tr'))))
                  else (Inr \<lparr>status = 404, resp_body = Some ''Not Found''\<rparr>,
                        tr @ [Read_Body]))))"

definition POST :: "env \<Rightarrow> transport \<Rightarrow> exn + js \<Rightarrow> trace \<Rightarrow> response \<times> trace" where
  "POST e net req tr =
     (case POST_try e net req tr of
        (Inl x, tr') \<Rightarrow>
          (\<lparr>status = 200, resp_body = Some ''Internal Server Error Handled''\<rparr>,
           tr' @ [Console (Crash_Error x)])
      | (Inr r, tr') \<Rightarrow> (r, tr'))"

section \<open>Payloads of the declared shape\<close>

text \<open>
  The interfaces \<^verbatim>\<open>WebhookChange\<close>, \<^verbatim>\<open>WebhookEntry\<close> and \<^verbatim>\<open>WebhookPayload\<close> of the
  source, as records: an optional property is an \<open>option\<close>. The handler also accepts a
  payload without \<^verbatim>\<open>entry\<close>, so that field is optional here. \<open>js_of_payload\<close> is the
  value \<^verbatim>\<open>req.json()\<close> gives for a payload of this shape.
\<close>

record change_value =
  from_user :: "(string \<times> string) option"
  item :: "string option"
  comment_id :: "string option"
  comment_text :: "string option"
  post_id :: "string option"

record webhook_change =
  field :: string
  change_val :: change_value

record webhook_entry =
  entry_id :: string
  changes :: "webhook_change list option"

record webhook_payload =
  object :: string
  entry :: "webhook_entry list option"

fun optional :: "string \<Rightarrow> js option \<Rightarrow> (string \<times> js) list" where
  "optional k None = []"
| "optional k (Some v) = [(k, v)]"

definition js_of_from :: "string \<times> string \<Rightarrow> js" where
  "js_of_from u = Obj [(''id'', Str (fst u)), (''username'', Str (snd u))]"

definition js_of_value :: "change_value \<Rightarrow> js" where
  "js_of_value v =
     Obj (optional ''from'' (map_option js_of_from (from_user v))
          @ optional ''item'' (map_option Str (item v))
          @ optional ''comment_id'' (map_option Str (comment_id v))
          @ optional ''text'' (map_option Str (comment_text v))
          @ optional ''post_id'' (map_option Str (post_id v)))"

definition js_of_change :: "webhook_change \<Rightarrow> js" where
  "js_of_change c = Obj [(''field'', Str (field c)), (''value'', js_of_value (change_val c))]"

definition js_of_entry :: "webhook_entry \<Rightarrow> js" where
  "js_of_entry en =
     Obj ((''id'', Str (entry_id en))
          # optional ''changes'' (map_option (\<lambda>cs. Arr (map js_of_change cs)) (changes en)))"

definition js_of_payload :: "webhook_payload \<Rightarrow> js" where
  "js_of_payload p =
     Obj ((''object'', Str (object p))
          # optional ''entry'' (map_option (\<lambda>es. Arr (map js_of_entry es)) (entry p)))"

text \<open>The change events of a batch, in batch order; an absent sequence is empty.\<close>

definition entry_changes :: "webhook_entry \<Rightarrow> webhook_change list" where
  "entry_changes en = (case changes en of None \<Rightarrow> [] | Some cs \<Rightarrow> cs)"

definition batch_changes :: "webhook_payload \<Rightarrow> webhook_change list" where
  "batch_changes p = concat (map entry_changes (case entry p of None \<Rightarrow> [] | Some es \<Rightarrow> es))"

text \<open>The keyword test on a text: lower-case it, look for \<^verbatim>\<open>roadmap\<close>.\<close>

definition keyword_found :: "string \<Rightarrow> bool" where
  "keyword_found t = includes_str (map toLowerCase_char t) ''roadmap''"

text \<open>
  A keyword comment, in the words of the specification: a change event with field
  \<^verbatim>\<open>comments\<close>, both \<^verbatim>\<open>text\<close> and \<^verbatim>\<open>comment_id\<close> present, and the text containing the
  keyword.
\<close>

definition keyword_comment :: "webhook_change \<Rightarrow> bool" where
  "keyword_comment c =
     (field c = ''comments''
      \<and> (case comment_text (change_val c) of None \<Rightarrow> False | Some t \<Rightarrow> keyword_found t)
      \<and> comment_id (change_val c) \<noteq> None)"

text \<open>The same with a \<^verbatim>\<open>comment_id\<close> that is present and not the empty string.\<close>

definition actionable_comment :: "webhook_change \<Rightarrow> bool" where
  "actionable_comment c =
     (keyword_comment c \<and> comment_id (change_val c) \<noteq> Some [])"

definition comment_ids :: "webhook_change list \<Rightarrow> js list" where
  "comment_ids cs = map (\<lambda>c. js_of_env (comment_id (change_val c))) cs"

text \<open>A line that reports how one outbound call ended.\<close>

fun outcome_line :: "log_line \<Rightarrow> bool" where
  "outcome_line (Meta_API_Error v) = True"
| "outcome_line DM_Sent = True"
| "outcome_line (Network_Fetch_Error x) = True"
| "outcome_line l = False"

text \<open>
  In a settled trace every outbound call is directly followed by the line reporting
  its outcome: nothing else happens between a call and its completion.
\<close>

fun settled :: "trace \<Rightarrow> bool" where
  "settled [] = True"
| "settled (Fetch r # Console l # es) = (outcome_line l \<and> settled es)"
| "settled (Fetch r # es) = False"
| "settled (e # es) = settled es"

section \<open>Concrete environments and payloads\<close>

definition example_env :: env where
  "example_env = \<lparr>VERIFY_TOKEN = Some ''secret'', PAGE_ACCESS_TOKEN = Some ''token''\<rparr>"

definition empty_credential_env :: env where
  "empty_credential_env = \<lparr>VERIFY_TOKEN = Some ''secret'', PAGE_ACCESS_TOKEN = Some []\<rparr>"

definition unset_env :: env where
  "unset_env = \<lparr>VERIFY_TOKEN = None, PAGE_ACCESS_TOKEN = None\<rparr>"

definition comment_event :: "string option \<Rightarrow> string option \<Rightarrow> webhook_change" where
  "comment_event t i =
     \<lparr>field = ''comments'',
      change_val = \<lparr>from_user = None, item = None, comment_id = i, comment_text = t,
                    post_id = None\<rparr>\<rparr>"

definition batch_of :: "webhook_change list \<Rightarrow> webhook_payload" where
  "batch_of cs = \<lparr>object = ''instagram'', entry = Some [\<lparr>entry_id = ''1'', changes = Some cs\<rparr>]\<rparr>"

definition faulty_body :: js where
  "faulty_body =
     Obj [(''object'', Str ''instagram''),
          (''entry'', Arr [Obj [(''id'', Str ''1''),
                                (''changes'', Arr [Obj [(''field'', Str ''comments'')]])]])]"


definition empty_id_batch :: webhook_payload where
  "empty_id_batch = batch_of [comment_event (Some ''roadmap'') (Some [])]"

definition mixed_batch :: webhook_payload where
  "mixed_batch =
     batch_of [comment_event (Some ''Roadmap?'') (Some ''c1''),
               comment_event (Some ''nice post'') (Some ''c2''),
               comment_event (Some ''the ROADMAP please'') (Some ''c3'')]"

definition heartbeat_body :: js where
  "heartbeat_body =
     Obj [(''object'', Str ''instagram''),
          (''entry'', Arr [Obj [(''id'', Str ''1'')], Obj [(''id'', Str ''2'')]])]"

definition skipped_batch :: webhook_payload where
  "skipped_batch =
     batch_of [comment_event (Some ''roadmap'') (Some []),
               comment_event (Some ''my roadmap'') (Some ''c2'')]"

definition page_body :: js where
  "page_body =
     Obj [(''object'', Str ''page''),
          (''entry'', Arr [Obj [(''id'', Str ''1''),
             (''changes'', Arr [Obj [(''field'', Str ''comments''),
                (''value'', Obj [(''text'', Str ''roadmap''), (''comment_id'', Str ''c1'')])]])]])]"

section \<open>Auxiliary facts\<close>

lemma fetches_append: "fetches (a @ b) = fetches a @ fetches b"
  by (induction a rule: fetches.induct) simp_all

lemma settled_append: "settled a \<Longrightarrow> settled b \<Longrightarrow> settled (a @ b)"
  by (induction a rule: settled.induct) simp_all

lemma sendPrivateReply_try_trace:
  "\<exists>r. sendPrivateReply_try e net cid tr = (Inl r, tr @ [Fetch (reply_request e cid)])
     \<or> (\<exists>l. outcome_line l \<and> 
          sendPrivateReply_try e net cid tr = (Inr (), tr @ [Fetch (reply_request e cid), Console l]))"
  by (auto simp: sendPrivateReply_try_def Let_def split: fetch_outcome.splits sum.splits)

lemma sendPrivateReply_result:
  "\<exists>l. outcome_line l \<and>
     sendPrivateReply e net cid tr = (Inr (), tr @ [Fetch (reply_request e cid), Console l])"
  using sendPrivateReply_try_trace [of e net cid tr]
  by (auto simp: sendPrivateReply_def)

lemma get_optional:
  "map_of (optional k v) k' = (if k = k' then v else None)"
  by (cases v) simp_all

lemma get_change_field: "get (js_of_change c) ''field'' = Inr (Str (field c))"
  by (simp add: js_of_change_def)

lemma get_change_value: "get (js_of_change c) ''value'' = Inr (js_of_value (change_val c))"
  by (simp add: js_of_change_def)

lemma get_value_text:
  "get (js_of_value v) ''text'' = Inr (js_of_env (comment_text v))"
  by (simp add: js_of_value_def js_of_env_def map_add_def get_optional split: option.splits)

lemma get_value_comment_id:
  "get (js_of_value v) ''comment_id'' = Inr (js_of_env (comment_id v))"
  by (simp add: js_of_value_def js_of_env_def map_add_def get_optional split: option.splits)

lemma includes_str_sublist: "includes_str hay needle \<longleftrightarrow> sublist needle hay"
  by (induction hay) (simp_all add: sublist_Cons_right)

lemma process_change_conforming:
  "process_change e net (js_of_change c) tr =
     (if field c = ''comments'' then
        (case (comment_text (change_val c), comment_id (change_val c)) of
           (Some t, Some i) \<Rightarrow>
              if t = [] \<or> i = [] then (Inr (), tr @ [Console Skipping_Comment])
              else if keyword_found t
                then sendPrivateReply e net (Str i) (tr @ [Console (Keyword_Found (Str t) (Str i))])
                else (Inr (), tr)
         | _ \<Rightarrow> (Inr (), tr @ [Console Skipping_Comment]))
      else (Inr (), tr))"
  by (simp add: process_change_def get_change_field get_change_value get_value_text
        get_value_comment_id js_of_env_def keyword_found_def split: option.splits)

lemma process_change_step:
  "\<exists>t. process_change e net (js_of_change c) tr = (Inr (), tr @ t) \<and> settled t
     \<and> fetches t = (if actionable_comment c
                     then [reply_request e (js_of_env (comment_id (change_val c)))] else [])"
proof (cases "actionable_comment c")
  case True
  then obtain t i where f: "field c = ''comments''" and t: "comment_text (change_val c) = Some t"
    and i: "comment_id (change_val c) = Some i" and k: "keyword_found t" and ne: "i \<noteq> []"
    by (auto simp: actionable_comment_def keyword_comment_def split: option.splits)
  from k have tne: "t \<noteq> []" by (auto simp: keyword_found_def)
  obtain l where l: "outcome_line l" and
    s: "sendPrivateReply e net (Str i) (tr @ [Console (Keyword_Found (Str t) (Str i))])
         = (Inr (), (tr @ [Console (Keyword_Found (Str t) (Str i))]) @ [Fetch (reply_request e (Str i)), Console l])"
    using sendPrivateReply_result by blast
  show ?thesis
    using True f t i k ne tne l s
    by (simp add: process_change_conforming js_of_env_def)
next
  case False
  then show ?thesis
    by (auto simp: process_change_conforming actionable_comment_def keyword_comment_def
          split: option.splits)
qed

lemma for_of_changes:
  "\<exists>t. for_of (process_change e net) (map js_of_change cs) tr = (Inr (), tr @ t) \<and> settled t
     \<and> fetches t = map (reply_request e) (comment_ids (filter actionable_comment cs))"
proof (induction cs arbitrary: tr)
  case Nil
  show ?case by (simp add: comment_ids_def)
next
  case (Cons c cs)
  obtain t1 where s1: "process_change e net (js_of_change c) tr = (Inr (), tr @ t1)"
    and t1: "settled t1"
    and f1: "fetches t1 = (if actionable_comment c
                     then [reply_request e (js_of_env (comment_id (change_val c)))] else [])"
    using process_change_step by blast
  obtain t2 where s2: "for_of (process_change e net) (map js_of_change cs) (tr @ t1) = (Inr (), (tr @ t1) @ t2)"
    and t2: "settled t2"
    and f2: "fetches t2 = map (reply_request e) (comment_ids (filter actionable_comment cs))"
    using Cons.IH by blast
  have "for_of (process_change e net) (map js_of_change (c # cs)) tr = (Inr (), tr @ (t1 @ t2))"
    using s1 s2 by simp
  moreover have "settled (t1 @ t2)" using t1 t2 by (rule settled_append)
  moreover have "fetches (t1 @ t2) = map (reply_request e) (comment_ids (filter actionable_comment (c # cs)))"
    using f1 f2 by (simp add: fetches_append comment_ids_def)
  ultimately show ?case by blast
qed


lemma get_entry_changes:
  "get (js_of_entry en) ''changes'' =
     Inr (case changes en of None \<Rightarrow> Undefined | Some cs \<Rightarrow> Arr (map js_of_change cs))"
  by (simp add: js_of_entry_def split: option.splits)

lemma process_entry_conforming:
  "\<exists>t. process_entry e net (js_of_entry en) tr = (Inr (), tr @ t) \<and> settled t
     \<and> fetches t = map (reply_request e) (comment_ids (filter actionable_comment (entry_changes en)))"
proof (cases "changes en")
  case None
  then show ?thesis
    by (simp add: process_entry_def get_entry_changes entry_changes_def comment_ids_def)
next
  case (Some cs)
  then show ?thesis
    using for_of_changes [of e net cs tr]
    by (simp add: process_entry_def get_entry_changes entry_changes_def)
qed

lemma for_of_entries:
  "\<exists>t. for_of (process_entry e net) (map js_of_entry es) tr = (Inr (), tr @ t) \<and> settled t
     \<and> fetches t = map (reply_request e)
          (comment_ids (filter actionable_comment (concat (map entry_changes es))))"
proof (induction es arbitrary: tr)
  case Nil
  show ?case by (simp add: comment_ids_def)
next
  case (Cons en es)
  obtain t1 where s1: "process_entry e net (js_of_entry en) tr = (Inr (), tr @ t1)"
    and t1: "settled t1"
    and f1: "fetches t1 = map (reply_request e)
               (comment_ids (filter actionable_comment (entry_changes en)))"
    using process_entry_conforming by blast
  obtain t2 where
    s2: "for_of (process_entry e net) (map js_of_entry es) (tr @ t1) = (Inr (), (tr @ t1) @ t2)"
    and t2: "settled t2"
    and f2: "fetches t2 = map (reply_request e)
               (comment_ids (filter actionable_comment (concat (map entry_changes es))))"
    using Cons.IH by blast
  have "for_of (process_entry e net) (map js_of_entry (en # es)) tr = (Inr (), tr @ (t1 @ t2))"
    using s1 s2 by simp
  moreover have "settled (t1 @ t2)" using t1 t2 by (rule settled_append)
  moreover have "fetches (t1 @ t2) = map (reply_request e)
      (comment_ids (filter actionable_comment (concat (map entry_changes (en # es)))))"
    using f1 f2 by (simp add: fetches_append comment_ids_def)
  ultimately show ?case by blast
qed

lemma get_payload_object: "get (js_of_payload p) ''object'' = Inr (Str (object p))"
  by (simp add: js_of_payload_def)

lemma get_payload_entry:
  "get (js_of_payload p) ''entry'' =
     Inr (case entry p of None \<Rightarrow> Undefined | Some es \<Rightarrow> Arr (map js_of_entry es))"
  by (simp add: js_of_payload_def split: option.splits)

lemma POST_conforming:
  assumes tok: "PAGE_ACCESS_TOKEN e = Some tok" "tok \<noteq> []"
    and ob: "object p = ''instagram''"
  shows "\<exists>t. POST e net (Inr (js_of_payload p)) tr
            = (\<lparr>status = 200, resp_body = Some ''EVENT_RECEIVED''\<rparr>, tr @ Read_Body # t)
          \<and> settled t
          \<and> fetches t = map (reply_request e)
                          (comment_ids (filter actionable_comment (batch_changes p)))"
proof (cases "entry p")
  case None
  then show ?thesis
    using tok ob
    by (simp add: POST_def POST_try_def js_of_env_def get_payload_object get_payload_entry
          batch_changes_def comment_ids_def)
next
  case (Some es)
  obtain t where
    s: "for_of (process_entry e net) (map js_of_entry es) (tr @ [Read_Body])
          = (Inr (), (tr @ [Read_Body]) @ t)"
    and t: "settled t"
    and f: "fetches t = map (reply_request e)
               (comment_ids (filter actionable_comment (concat (map entry_changes es))))"
    using for_of_entries by blast
  show ?thesis
    using tok ob Some s t f
    by (simp add: POST_def POST_try_def js_of_env_def get_payload_object get_payload_entry
          batch_changes_def)
qed


lemma POST_status:
  "status (fst (POST e net req tr)) \<in> {200, 404, 500}
   \<and> (status (fst (POST e net req tr)) = 500
        \<longleftrightarrow> PAGE_ACCESS_TOKEN e = None \<or> PAGE_ACCESS_TOKEN e = Some [])"
  by (auto simp: POST_def POST_try_def js_of_env_def split: sum.splits prod.splits option.splits)


lemma includes_str_map_iff:
  "includes_str (map f t) k \<longleftrightarrow> (\<exists>pre w post. t = pre @ w @ post \<and> map f w = k)"
proof
  assume "includes_str (map f t) k"
  then obtain ps ss where "map f t = ps @ k @ ss"
    unfolding includes_str_sublist sublist_def by blast
  then have "\<exists>us vs. t = us @ vs \<and> ps = map f us \<and> k @ ss = map f vs"
    by (simp only: map_eq_append_conv)
  then obtain pre rest where 1: "t = pre @ rest" and 2: "k @ ss = map f rest"
    by blast
  from 2 have "\<exists>us vs. rest = us @ vs \<and> k = map f us \<and> ss = map f vs"
    by (simp only: append_eq_map_conv)
  then obtain w post where 3: "rest = w @ post" and 4: "k = map f w"
    by blast
  have "t = pre @ w @ post \<and> map f w = k"
    using 1 3 4 by simp
  then show "\<exists>pre w post. t = pre @ w @ post \<and> map f w = k"
    by (intro exI)
next
  assume "\<exists>pre w post. t = pre @ w @ post \<and> map f w = k"
  then obtain pre w post where t: "t = pre @ w @ post" and w: "map f w = k"
    by blast
  have "map f t = map f pre @ k @ map f post"
    using t w by simp
  then have "sublist k (map f t)"
    unfolding sublist_def by blast
  then show "includes_str (map f t) k"
    unfolding includes_str_sublist .
qed

lemma keyword_found_iff:
  "keyword_found t \<longleftrightarrow> (\<exists>pre w post. t = pre @ w @ post \<and> map toLowerCase_char w = ''roadmap'')"
  unfolding keyword_found_def by (rule includes_str_map_iff)

lemma sendPrivateReply_contained:
  "fst (sendPrivateReply e net cid tr) = Inr ()
   \<and> fetches (snd (sendPrivateReply e net cid tr)) = fetches tr @ [reply_request e cid]"
  using sendPrivateReply_result [of e net cid tr]
  by (auto simp: fetches_append)

lemma process_change_transport:
  "fst (process_change e net c tr) = fst (process_change e net' c tr')
   \<and> (\<exists>d. fetches (snd (process_change e net c tr)) = fetches tr @ d
          \<and> fetches (snd (process_change e net' c tr')) = fetches tr' @ d)"
  by (simp add: process_change_def sendPrivateReply_contained fetches_append split: sum.splits)

lemma for_of_transport:
  assumes step: "\<And>x tr tr'. fst (f x tr) = fst (g x tr')
      \<and> (\<exists>d. fetches (snd (f x tr)) = fetches tr @ d \<and> fetches (snd (g x tr')) = fetches tr' @ d)"
  shows "fst (for_of f xs tr) = fst (for_of g xs tr')
      \<and> (\<exists>d. fetches (snd (for_of f xs tr)) = fetches tr @ d
             \<and> fetches (snd (for_of g xs tr')) = fetches tr' @ d)"
proof (induction xs arbitrary: tr tr')
  case Nil
  show ?case by simp
next
  case (Cons x xs)
  obtain r1 t1 where f: "f x tr = (r1, t1)" by (cases "f x tr")
  obtain r2 t2 where g: "g x tr' = (r2, t2)" by (cases "g x tr'")
  from step [of x tr tr'] f g obtain d1 where r: "r1 = r2"
    and d1: "fetches t1 = fetches tr @ d1" "fetches t2 = fetches tr' @ d1"
    by auto
  show ?case
  proof (cases r1)
    case (Inl x1)
    then show ?thesis using f g r d1 by simp
  next
    case (Inr u)
    from Cons.IH [of t1 t2] obtain d2 where
      "fst (for_of f xs t1) = fst (for_of g xs t2)"
      "fetches (snd (for_of f xs t1)) = fetches t1 @ d2"
      "fetches (snd (for_of g xs t2)) = fetches t2 @ d2"
      by blast
    then show ?thesis using Inr f g r d1 by simp
  qed
qed

lemma process_entry_transport:
  "fst (process_entry e net en tr) = fst (process_entry e net' en tr')
   \<and> (\<exists>d. fetches (snd (process_entry e net en tr)) = fetches tr @ d
          \<and> fetches (snd (process_entry e net' en tr')) = fetches tr' @ d)"
proof (cases "get en ''changes''")
  case (Inl x)
  then show ?thesis by (simp add: process_entry_def)
next
  case (Inr ch)
  show ?thesis
  proof (cases "iterate (if nullish ch then Arr [] else ch)")
    case (Inl x)
    then show ?thesis using Inr by (simp add: process_entry_def)
  next
    case (Inr cs)
    show ?thesis
      using \<open>get en ''changes'' = Inr ch\<close> Inr
        for_of_transport [of "process_change e net" "process_change e net'" cs tr tr',
          OF process_change_transport]
      by (simp add: process_entry_def)
  qed
qed

lemma POST_try_transport:
  "fst (POST_try e net req tr) = fst (POST_try e net' req tr)
   \<and> fetches (snd (POST_try e net req tr)) = fetches (snd (POST_try e net' req tr))"
proof -
  have loop: "fst (for_of (process_entry e net) es t) = fst (for_of (process_entry e net') es t)
      \<and> fetches (snd (for_of (process_entry e net) es t))
          = fetches (snd (for_of (process_entry e net') es t))" for es t
    using for_of_transport [of "process_entry e net" "process_entry e net'" es t t,
          OF process_entry_transport]
    by auto
  show ?thesis
  proof (cases "POST_try e net req tr = POST_try e net' req tr")
    case True
    then show ?thesis by simp
  next
    case False
    then obtain body en es where "req = Inr body" "get body ''entry'' = Inr en"
      "iterate (if truthy en then en else Arr []) = Inr es"
      "truthy (js_of_env (PAGE_ACCESS_TOKEN e))"
      and ob: "\<exists>ob. get body ''object'' = Inr ob \<and> strict_equals ob (Str ''instagram'')"
      by (auto simp: POST_try_def split: if_splits sum.splits)
    then show ?thesis
      using loop [of es "tr @ [Read_Body]"]
      by (auto simp: POST_try_def split: prod.splits sum.splits)
  qed
qed

lemma for_of_entries_without_changes:
  "\<forall>en \<in> set es. get en ''changes'' = Inr Undefined \<Longrightarrow>
     for_of (process_entry e net) es tr = (Inr (), tr)"
  by (induction es) (simp_all add: process_entry_def)

lemma strict_equals_Str: "strict_equals v (Str s) \<longleftrightarrow> v = Str s"
  by (cases v) auto

lemma POST_nonsuccess:
  "status (fst (POST e net req tr)) = 200
   \<or> (status (fst (POST e net req tr)) = 500
       \<and> (PAGE_ACCESS_TOKEN e = None \<or> PAGE_ACCESS_TOKEN e = Some []))
   \<or> (status (fst (POST e net req tr)) = 404
       \<and> (\<exists>body ob. req = Inr body \<and> get body ''object'' = Inr ob
                     \<and> ob \<noteq> Str ''instagram''))"
  by (auto simp: POST_def POST_try_def js_of_env_def strict_equals_Str
        split: sum.splits prod.splits option.splits)

section \<open>Faults inside the POST handler\<close>

text \<open>
  Claim C1. With an access credential configured, whenever the body of the \<^verbatim>\<open>try\<close>
  throws (the request body fails to parse, the payload has an unexpected shape, or the
  processing of a comment throws), the handler answers with status 200 and the body
  \<^verbatim>\<open>Internal Server Error Handled\<close>, which is not the normal body \<^verbatim>\<open>EVENT_RECEIVED\<close>.
  A parse failure is such a fault. No status of 500 or above is produced.
\<close>

theorem POST_fault_acknowledged:
  assumes "PAGE_ACCESS_TOKEN e = Some tok" and "tok \<noteq> []"
  shows "(fst (POST_try e net req tr) = Inl x \<longrightarrow>
            fst (POST e net req tr)
              = \<lparr>status = 200, resp_body = Some ''Internal Server Error Handled''\<rparr>
            \<and> resp_body (fst (POST e net req tr)) \<noteq> Some ''EVENT_RECEIVED'')
         \<and> fst (POST_try e net (Inl x) tr) = Inl x
         \<and> status (fst (POST e net req tr)) < 500"
proof -
  have "status (fst (POST e net req tr)) < 500"
    using assms POST_status [of e net req tr] by auto
  moreover have "fst (POST_try e net (Inl x) tr) = Inl x"
    using assms by (simp add: POST_try_def js_of_env_def)
  moreover have "fst (POST_try e net req tr) = Inl x \<longrightarrow>
            fst (POST e net req tr)
              = \<lparr>status = 200, resp_body = Some ''Internal Server Error Handled''\<rparr>
            \<and> resp_body (fst (POST e net req tr)) \<noteq> Some ''EVENT_RECEIVED''"
    by (cases "POST_try e net req tr") (auto simp: POST_def)
  ultimately show ?thesis by blast
qed

text \<open>A comment event without \<^verbatim>\<open>value\<close> makes the inner loop throw a \<^verbatim>\<open>TypeError\<close>.\<close>

theorem POST_fault_acknowledged_witness:
  "PAGE_ACCESS_TOKEN example_env = Some ''token''
   \<and> fst (POST_try example_env (always (Fetch_Rejects NetworkError)) (Inr faulty_body) []) = Inl TypeError
   \<and> POST example_env (always (Fetch_Rejects NetworkError)) (Inr faulty_body) []
       = (\<lparr>status = 200, resp_body = Some ''Internal Server Error Handled''\<rparr>,
          [Read_Body, Console (Crash_Error TypeError)])"
proof -
  have a: "PAGE_ACCESS_TOKEN example_env = Some ''token''" by (simp add: example_env_def)
  have b: "''token'' \<noteq> []" by simp
  have c: "POST_try example_env (always (Fetch_Rejects NetworkError)) (Inr faulty_body) []
             = (Inl TypeError, [Read_Body])"
    by (simp add: POST_try_def example_env_def js_of_env_def faulty_body_def process_entry_def
          process_change_def)
  show ?thesis
    using POST_fault_acknowledged [OF a b, of "always (Fetch_Rejects NetworkError)"
        "Inr faulty_body" "[]" TypeError] a c
    by (simp add: POST_def)
qed

section \<open>Dispatch of replies\<close>

text \<open>
  Claim C2, as amended. For every batch of the declared payload shape with object
  \<^verbatim>\<open>instagram\<close> and a configured credential, the reply dispatcher is invoked once for
  each change event that has field \<^verbatim>\<open>comments\<close>, a text containing the keyword, and a
  \<^verbatim>\<open>comment_id\<close> that is present and not the empty string: the outbound requests are
  exactly the replies to those comment ids, in batch order, so there are as many of them
  as such events; each carries the same fixed message text; every call is directly
  followed by the report of its outcome; and the response is the success
  acknowledgment, returned with the trace in which all calls have settled.
\<close>

theorem POST_dispatches_each_actionable_comment:
  assumes "PAGE_ACCESS_TOKEN e = Some tok" and "tok \<noteq> []"
    and "object p = ''instagram''"
  shows "fst (POST e net (Inr (js_of_payload p)) [])
           = \<lparr>status = 200, resp_body = Some ''EVENT_RECEIVED''\<rparr>
         \<and> fetches (snd (POST e net (Inr (js_of_payload p)) []))
             = map (reply_request e) (comment_ids (filter actionable_comment (batch_changes p)))
         \<and> length (fetches (snd (POST e net (Inr (js_of_payload p)) [])))
             = length (filter actionable_comment (batch_changes p))
         \<and> (\<forall>r \<in> set (fetches (snd (POST e net (Inr (js_of_payload p)) []))).
                get (req_body r) ''message'' = Inr (Obj [(''text'', Str reply_text)]))
         \<and> settled (snd (POST e net (Inr (js_of_payload p)) []))"
proof -
  obtain t where
    s: "POST e net (Inr (js_of_payload p)) []
          = (\<lparr>status = 200, resp_body = Some ''EVENT_RECEIVED''\<rparr>, [] @ Read_Body # t)"
    and t: "settled t"
    and f: "fetches t = map (reply_request e)
                          (comment_ids (filter actionable_comment (batch_changes p)))"
    using POST_conforming [OF assms] by blast
  have m: "\<forall>r \<in> set (map (reply_request e)
                          (comment_ids (filter actionable_comment (batch_changes p)))).
             get (req_body r) ''message'' = Inr (Obj [(''text'', Str reply_text)])"
    by (simp add: reply_request_def)
  show ?thesis
    using s t f m by (simp add: comment_ids_def)
qed

text \<open>Three comments, two of them with the keyword: two replies, in order.\<close>

theorem POST_dispatches_each_actionable_comment_witness:
  "PAGE_ACCESS_TOKEN example_env = Some ''token''
   \<and> object mixed_batch = ''instagram''
   \<and> fetches (snd (POST example_env (always (Fetch_Rejects NetworkError))
                      (Inr (js_of_payload mixed_batch)) []))
       = [reply_request example_env (Str ''c1''), reply_request example_env (Str ''c3'')]"
proof -
  have a: "PAGE_ACCESS_TOKEN example_env = Some ''token''" by (simp add: example_env_def)
  have b: "''token'' \<noteq> []" by simp
  have c: "object mixed_batch = ''instagram''"
    by (simp add: mixed_batch_def batch_of_def)
  have d: "filter actionable_comment (batch_changes mixed_batch)
             = [comment_event (Some ''Roadmap?'') (Some ''c1''),
                comment_event (Some ''the ROADMAP please'') (Some ''c3'')]"
    by code_simp
  show ?thesis
    using POST_dispatches_each_actionable_comment [OF a b c, of "always (Fetch_Rejects NetworkError)"]
      a c d
    by (simp add: comment_ids_def comment_event_def js_of_env_def)
qed

text \<open>
  As first stated the claim counts every keyword comment whose \<^verbatim>\<open>comment_id\<close> is present.
  A batch with one keyword comment whose \<^verbatim>\<open>comment_id\<close> is the empty string has one
  such event and no dispatch: the presence check \<^verbatim>\<open>!commentId\<close> skips it.
\<close>

theorem keyword_comment_with_empty_id_not_dispatched:
  "object empty_id_batch = ''instagram''
   \<and> length (filter keyword_comment (batch_changes empty_id_batch)) = 1
   \<and> length (fetches (snd (POST example_env (always (Json_Body (Obj [])))
                              (Inr (js_of_payload empty_id_batch)) []))) = 0"
  by code_simp

section \<open>The credential guard\<close>

text \<open>
  Claim C3, as amended. If the access credential is absent or is the empty string, the
  handler returns status 500 with body \<^verbatim>\<open>Server Config Error\<close> and does nothing else:
  the request body is not read and no outbound call is made. Whenever the status is not
  a 2xx status, either the credential is absent or empty, or the status is 404 and the
  request body parsed to a batch whose \<^verbatim>\<open>object\<close> is not \<^verbatim>\<open>instagram\<close>.
\<close>

theorem POST_credential_guard:
  "(PAGE_ACCESS_TOKEN e = None \<or> PAGE_ACCESS_TOKEN e = Some [] \<longrightarrow>
      POST e net req tr
        = (\<lparr>status = 500, resp_body = Some ''Server Config Error''\<rparr>,
           tr @ [Console Missing_Token])
      \<and> Read_Body \<notin> set (snd (POST e net req []))
      \<and> fetches (snd (POST e net req [])) = [])
   \<and> (status (fst (POST e net req tr)) \<notin> {200..299} \<longrightarrow>
        (PAGE_ACCESS_TOKEN e = None \<or> PAGE_ACCESS_TOKEN e = Some [])
        \<or> (status (fst (POST e net req tr)) = 404
            \<and> (\<exists>body ob. req = Inr body \<and> get body ''object'' = Inr ob
                          \<and> ob \<noteq> Str ''instagram'')))"
proof -
  have a: "PAGE_ACCESS_TOKEN e = None \<or> PAGE_ACCESS_TOKEN e = Some [] \<Longrightarrow>
      POST e net req t
        = (\<lparr>status = 500, resp_body = Some ''Server Config Error''\<rparr>,
           t @ [Console Missing_Token])" for t
    by (auto simp: POST_def POST_try_def js_of_env_def)
  have b: "status (fst (POST e net req tr)) \<notin> {200..299} \<longrightarrow>
        (PAGE_ACCESS_TOKEN e = None \<or> PAGE_ACCESS_TOKEN e = Some [])
        \<or> (status (fst (POST e net req tr)) = 404
            \<and> (\<exists>body ob. req = Inr body \<and> get body ''object'' = Inr ob
                          \<and> ob \<noteq> Str ''instagram''))"
    using POST_nonsuccess [of e net req tr] by auto
  show ?thesis using a b by auto
qed

text \<open>
  With no credential in the environment the request is rejected at once; with one, a
  batch for \<^verbatim>\<open>page\<close> gets the 404.
\<close>

theorem POST_credential_guard_witness:
  "PAGE_ACCESS_TOKEN unset_env = None
   \<and> POST unset_env (always (Json_Body (Obj []))) (Inr faulty_body) []
       = (\<lparr>status = 500, resp_body = Some ''Server Config Error''\<rparr>, [Console Missing_Token])
   \<and> status (fst (POST unset_env (always (Json_Body (Obj []))) (Inr faulty_body) []))
       \<notin> {200..299}
   \<and> status (fst (POST example_env (always (Json_Body (Obj []))) (Inr page_body) [])) = 404
   \<and> get page_body ''object'' = Inr (Str ''page'')"
proof -
  have a: "PAGE_ACCESS_TOKEN unset_env = None" by (simp add: unset_env_def)
  have b: "POST example_env (always (Json_Body (Obj []))) (Inr page_body) []
       = (\<lparr>status = 404, resp_body = Some ''Not Found''\<rparr>, [Read_Body])"
    by (simp add: POST_def POST_try_def example_env_def js_of_env_def page_body_def)
  have c: "get page_body ''object'' = Inr (Str ''page'')" by (simp add: page_body_def)
  note inst = POST_credential_guard [of unset_env "always (Json_Body (Obj []))"
      "Inr faulty_body" "[]", THEN conjunct1, THEN mp, OF disjI1, OF a]
  show ?thesis
    using inst a b c by simp
qed

text \<open>
  As first stated the claim makes the absent credential the only cause of a status
  outside 2xx other than 404. A credential that is set to the empty string is not
  absent and is rejected with 500 as well: the guard is \<^verbatim>\<open>!PAGE_ACCESS_TOKEN\<close>.
\<close>

theorem empty_credential_also_rejected:
  "PAGE_ACCESS_TOKEN empty_credential_env \<noteq> None
   \<and> status (fst (POST empty_credential_env (always (Json_Body (Obj [])))
                    (Inr (js_of_payload (batch_of []))) [])) = 500"
  by (simp add: empty_credential_env_def POST_def POST_try_def js_of_env_def)

section \<open>Batches for another object\<close>

text \<open>
  Claim C4. With a credential configured and a body that parsed to a value whose
  \<^verbatim>\<open>object\<close> property can be read and is not \<^verbatim>\<open>instagram\<close>, the handler returns 404
  with body \<^verbatim>\<open>Not Found\<close>; it only reads the body, and makes no outbound call.
\<close>

theorem POST_not_instagram:
  assumes "PAGE_ACCESS_TOKEN e = Some tok" and "tok \<noteq> []"
    and "get body ''object'' = Inr ob" and "ob \<noteq> Str ''instagram''"
  shows "POST e net (Inr body) tr
           = (\<lparr>status = 404, resp_body = Some ''Not Found''\<rparr>, tr @ [Read_Body])
         \<and> fetches (snd (POST e net (Inr body) tr)) = fetches tr"
proof -
  have "\<not> strict_equals ob (Str ''instagram'')"
    using assms(4) by (cases ob) auto
  then have "POST e net (Inr body) tr
           = (\<lparr>status = 404, resp_body = Some ''Not Found''\<rparr>, tr @ [Read_Body])"
    using assms by (simp add: POST_def POST_try_def js_of_env_def)
  then show ?thesis by (simp add: fetches_append)
qed

text \<open>A batch for \<^verbatim>\<open>page\<close> with a keyword comment in it: 404 and nothing sent.\<close>

theorem POST_not_instagram_witness:
  "PAGE_ACCESS_TOKEN example_env = Some ''token''
   \<and> get page_body ''object'' = Inr (Str ''page'')
   \<and> POST example_env (always (Json_Body (Obj []))) (Inr page_body) []
       = (\<lparr>status = 404, resp_body = Some ''Not Found''\<rparr>, [Read_Body])"
proof -
  have a: "PAGE_ACCESS_TOKEN example_env = Some ''token''" by (simp add: example_env_def)
  have b: "''token'' \<noteq> []" by simp
  have c: "get page_body ''object'' = Inr (Str ''page'')" by (simp add: page_body_def)
  have d: "Str ''page'' \<noteq> Str ''instagram''" by simp
  show ?thesis
    using POST_not_instagram [OF a b c d, of "always (Json_Body (Obj []))" "[]"] a c
    by simp
qed

section \<open>The keyword test\<close>

text \<open>
  Claim C5, as amended. The keyword test succeeds exactly when some part of the text
  lower-cases to \<^verbatim>\<open>roadmap\<close>: a case-insensitive substring match. The texts
  \<^verbatim>\<open>Roadmap?\<close>, \<^verbatim>\<open>ROADMAP please\<close> and \<^verbatim>\<open>see the roadmapping doc\<close> pass it and
  \<^verbatim>\<open>road map\<close> does not. For a comment event with the text present and a \<^verbatim>\<open>comment_id\<close>
  that is present and not the empty string, one reply is dispatched if the text passes
  the test and none otherwise.
\<close>

theorem keyword_test_case_insensitive_substring:
  "(keyword_found t \<longleftrightarrow>
      (\<exists>pre w post. t = pre @ w @ post \<and> map toLowerCase_char w = ''roadmap''))
   \<and> keyword_found ''Roadmap?''
   \<and> keyword_found ''ROADMAP please''
   \<and> keyword_found ''see the roadmapping doc''
   \<and> \<not> keyword_found ''road map''
   \<and> (field c = ''comments'' \<and> comment_text (change_val c) = Some t
         \<and> comment_id (change_val c) = Some i \<and> i \<noteq> [] \<longrightarrow>
        fetches (snd (process_change e net (js_of_change c) tr))
          = fetches tr @ (if keyword_found t then [reply_request e (Str i)] else []))"
proof -
  have a: "keyword_found ''Roadmap?''" by code_simp
  have b: "keyword_found ''ROADMAP please''" by code_simp
  have c: "keyword_found ''see the roadmapping doc''" by code_simp
  have d: "\<not> keyword_found ''road map''" by code_simp
  have k: "keyword_found t \<Longrightarrow> t \<noteq> []" by (auto simp: keyword_found_def)
  have s: "fetches (snd (sendPrivateReply e net (Str i)
                          (tr @ [Console (Keyword_Found (Str t) (Str i))])))
             = fetches tr @ [reply_request e (Str i)]"
    by (simp add: sendPrivateReply_contained fetches_append)
  have f: "field c = ''comments'' \<and> comment_text (change_val c) = Some t
         \<and> comment_id (change_val c) = Some i \<and> i \<noteq> [] \<longrightarrow>
        fetches (snd (process_change e net (js_of_change c) tr))
          = fetches tr @ (if keyword_found t then [reply_request e (Str i)] else [])"
    using k s by (auto simp: process_change_conforming fetches_append)
  show ?thesis by (intro conjI keyword_found_iff a b c d f)
qed

text \<open>One text that matches inside a longer word, and the space-separated one.\<close>

theorem keyword_test_case_insensitive_substring_witness:
  "field (comment_event (Some ''see the roadmapping doc'') (Some ''c1'')) = ''comments''
   \<and> ''c1'' \<noteq> []
   \<and> fetches (snd (process_change example_env (always (Json_Body (Obj [])))
         (js_of_change (comment_event (Some ''see the roadmapping doc'') (Some ''c1''))) []))
       = [reply_request example_env (Str ''c1'')]
   \<and> fetches (snd (process_change example_env (always (Json_Body (Obj [])))
         (js_of_change (comment_event (Some ''road map'') (Some ''c1''))) []))
       = []"
proof -
  have a: "keyword_found ''see the roadmapping doc''" by code_simp
  have b: "\<not> keyword_found ''road map''" by code_simp
  have h: "field (comment_event (Some t) (Some ''c1'')) = ''comments''
       \<and> comment_text (change_val (comment_event (Some t) (Some ''c1''))) = Some t
       \<and> comment_id (change_val (comment_event (Some t) (Some ''c1''))) = Some ''c1''
       \<and> ''c1'' \<noteq> []" for t
    by (simp add: comment_event_def)
  note hit = keyword_test_case_insensitive_substring
            [of "''see the roadmapping doc''"
                "comment_event (Some ''see the roadmapping doc'') (Some ''c1'')" "''c1''"
                example_env "always (Json_Body (Obj []))" "[]",
             THEN conjunct2, THEN conjunct2, THEN conjunct2, THEN conjunct2, THEN conjunct2,
             THEN mp, OF h]
  note miss = keyword_test_case_insensitive_substring
            [of "''road map''" "comment_event (Some ''road map'') (Some ''c1'')" "''c1''"
                example_env "always (Json_Body (Obj []))" "[]",
             THEN conjunct2, THEN conjunct2, THEN conjunct2, THEN conjunct2, THEN conjunct2,
             THEN mp, OF h]
  show ?thesis
    using hit miss a b h [of "''see the roadmapping doc''"] by simp
qed

text \<open>
  As first stated the claim has the listed texts trigger a dispatch for any comment
  event with both fields present. With \<^verbatim>\<open>comment_id\<close> present as the empty string the
  text \<^verbatim>\<open>Roadmap?\<close> triggers none.
\<close>

theorem keyword_text_with_empty_id_not_dispatched:
  "field (comment_event (Some ''Roadmap?'') (Some [])) = ''comments''
   \<and> comment_text (change_val (comment_event (Some ''Roadmap?'') (Some []))) \<noteq> None
   \<and> comment_id (change_val (comment_event (Some ''Roadmap?'') (Some []))) \<noteq> None
   \<and> fetches (snd (process_change example_env (always (Json_Body (Obj [])))
         (js_of_change (comment_event (Some ''Roadmap?'') (Some []))) [])) = []"
  by (simp add: process_change_conforming comment_event_def)

section \<open>Verification\<close>

text \<open>
  Claim C6, as amended. If the mode is \<^verbatim>\<open>subscribe\<close> and the supplied token equals the
  configured verification secret, the GET handler returns 200 with the challenge as the
  body. In every other case (another or no mode, another or no token, no secret
  configured) it returns 403 with the fixed body \<^verbatim>\<open>Forbidden\<close>, which is the challenge
  value exactly when the challenge is itself that word.
\<close>

theorem GET_verification:
  "(map_of ps ''hub.mode'' = Some ''subscribe''
      \<and> (\<exists>s. map_of ps ''hub.verify_token'' = Some s \<and> VERIFY_TOKEN e = Some s)
    \<longrightarrow> fst (GET e ps tr) = \<lparr>status = 200, resp_body = map_of ps ''hub.challenge''\<rparr>)
   \<and> (\<not> (map_of ps ''hub.mode'' = Some ''subscribe''
          \<and> (\<exists>s. map_of ps ''hub.verify_token'' = Some s \<and> VERIFY_TOKEN e = Some s))
    \<longrightarrow> fst (GET e ps tr) = \<lparr>status = 403, resp_body = Some ''Forbidden''\<rparr>
        \<and> (resp_body (fst (GET e ps tr)) = map_of ps ''hub.challenge''
             \<longleftrightarrow> map_of ps ''hub.challenge'' = Some ''Forbidden''))"
  by (auto simp: GET_def searchParams_get_def js_of_env_def nullable_body_def
        split: option.splits)

text \<open>The right and a wrong token against the same secret.\<close>

theorem GET_verification_witness:
  "fst (GET example_env [(''hub.mode'', ''subscribe''), (''hub.verify_token'', ''secret''),
                        (''hub.challenge'', ''1158201444'')] [])
     = \<lparr>status = 200, resp_body = Some ''1158201444''\<rparr>
   \<and> fst (GET example_env [(''hub.mode'', ''subscribe''), (''hub.verify_token'', ''guess''),
                        (''hub.challenge'', ''1158201444'')] [])
     = \<lparr>status = 403, resp_body = Some ''Forbidden''\<rparr>"
  using GET_verification [of "[(''hub.mode'', ''subscribe''), (''hub.verify_token'', ''secret''),
                        (''hub.challenge'', ''1158201444'')]" example_env "[]"]
        GET_verification [of "[(''hub.mode'', ''subscribe''), (''hub.verify_token'', ''guess''),
                        (''hub.challenge'', ''1158201444'')]" example_env "[]"]
  by (simp add: example_env_def)

text \<open>
  As first stated the claim has the 403 body differ from the challenge value. A request
  with a wrong token whose challenge is the word \<^verbatim>\<open>Forbidden\<close> is rejected with a body
  equal to its challenge: the body is fixed and does not look at the challenge.
\<close>

theorem GET_forbidden_body_equals_challenge:
  "map_of [(''hub.mode'', ''subscribe''), (''hub.verify_token'', ''guess''),
           (''hub.challenge'', ''Forbidden'')] ''hub.verify_token'' \<noteq> VERIFY_TOKEN example_env
   \<and> status (fst (GET example_env [(''hub.mode'', ''subscribe''),
         (''hub.verify_token'', ''guess''), (''hub.challenge'', ''Forbidden'')] [])) = 403
   \<and> resp_body (fst (GET example_env [(''hub.mode'', ''subscribe''),
         (''hub.verify_token'', ''guess''), (''hub.challenge'', ''Forbidden'')] []))
       = map_of [(''hub.mode'', ''subscribe''), (''hub.verify_token'', ''guess''),
                 (''hub.challenge'', ''Forbidden'')] ''hub.challenge''"
  by (simp add: GET_def searchParams_get_def js_of_env_def example_env_def)

text \<open>
  Claim C7. If the verification secret is not in the environment, every GET request is
  answered with 403 \<^verbatim>\<open>Forbidden\<close>, whatever its mode, token and challenge, and also
  when it has no token: \<^verbatim>\<open>null\<close> is not \<^verbatim>\<open>undefined\<close> under \<^verbatim>\<open>===\<close>.
\<close>

theorem GET_fails_closed_without_secret:
  assumes "VERIFY_TOKEN e = None"
  shows "GET e ps tr = (\<lparr>status = 403, resp_body = Some ''Forbidden''\<rparr>, tr)"
  using assms
  by (auto simp: GET_def searchParams_get_def js_of_env_def split: option.splits)

text \<open>A subscribe request without a token, against an environment without a secret.\<close>

theorem GET_fails_closed_without_secret_witness:
  "VERIFY_TOKEN unset_env = None
   \<and> GET unset_env [(''hub.mode'', ''subscribe''), (''hub.challenge'', ''1158201444'')] []
       = (\<lparr>status = 403, resp_body = Some ''Forbidden''\<rparr>, [])"
proof -
  have a: "VERIFY_TOKEN unset_env = None" by (simp add: unset_env_def)
  show ?thesis
    using GET_fails_closed_without_secret [OF a,
        of "[(''hub.mode'', ''subscribe''), (''hub.challenge'', ''1158201444'')]" "[]"] a
    by simp
qed

section \<open>Failures of the outbound call\<close>

text \<open>
  Claim C8. \<^verbatim>\<open>sendPrivateReply\<close> returns normally whatever the transport does: when
  \<^verbatim>\<open>fetch\<close> throws, when the response body is not JSON, and when the body carries an
  \<^verbatim>\<open>error\<close> field. So the response of the POST handler, and the sequence of outbound
  calls it makes, are the same for any two transports: no outcome of a call aborts the
  batch or changes the acknowledgment.
\<close>

theorem sendPrivateReply_never_propagates:
  "fst (sendPrivateReply e net commentId tr) = Inr ()
   \<and> fst (POST e net req tr) = fst (POST e net' req tr)
   \<and> fetches (snd (POST e net req tr)) = fetches (snd (POST e net' req tr))"
proof -
  obtain r1 t1 where a: "POST_try e net req tr = (r1, t1)" by (cases "POST_try e net req tr")
  obtain r2 t2 where b: "POST_try e net' req tr = (r2, t2)" by (cases "POST_try e net' req tr")
  from POST_try_transport [of e net req tr net'] a b
  have "r1 = r2" "fetches t1 = fetches t2" by simp_all
  then have "fst (POST e net req tr) = fst (POST e net' req tr)
     \<and> fetches (snd (POST e net req tr)) = fetches (snd (POST e net' req tr))"
    using a b by (simp add: POST_def fetches_append split: sum.splits)
  then show ?thesis using sendPrivateReply_contained [of e net commentId tr] by simp
qed

text \<open>
  The body of the \<^verbatim>\<open>try\<close> does throw when the call fails or the answer is not JSON;
  the dispatcher still returns, and the response is that of a transport answering with
  an error object.
\<close>

theorem sendPrivateReply_never_propagates_witness:
  "fst (sendPrivateReply_try example_env (always (Fetch_Rejects NetworkError)) (Str ''c1'') [])
     = Inl NetworkError
   \<and> fst (sendPrivateReply_try example_env (always (Json_Rejects SyntaxError)) (Str ''c1'') [])
     = Inl SyntaxError
   \<and> fst (sendPrivateReply example_env (always (Fetch_Rejects NetworkError)) (Str ''c1'') [])
     = Inr ()
   \<and> fst (POST example_env (always (Fetch_Rejects NetworkError))
             (Inr (js_of_payload mixed_batch)) [])
     = fst (POST example_env (always (Json_Body (Obj [(''error'', Obj [(''code'', Num 190)])])))
             (Inr (js_of_payload mixed_batch)) [])"
  using sendPrivateReply_never_propagates [of example_env "always (Fetch_Rejects NetworkError)"
      "Str ''c1''" "[]" "Inr (js_of_payload mixed_batch)"
      "always (Json_Body (Obj [(''error'', Obj [(''code'', Num 190)])]))"]
  by (simp add: sendPrivateReply_try_def always_def)

section \<open>Absent and empty fields\<close>

text \<open>
  Claim C9. With a credential configured, a batch with object \<^verbatim>\<open>instagram\<close> whose
  \<^verbatim>\<open>entry\<close> is absent, or whose entries all have no \<^verbatim>\<open>changes\<close>, is answered with 200
  \<^verbatim>\<open>EVENT_RECEIVED\<close>; the handler only reads the body and makes no outbound call.
\<close>

theorem POST_absent_sequences:
  assumes "PAGE_ACCESS_TOKEN e = Some tok" and "tok \<noteq> []"
    and "get body ''object'' = Inr (Str ''instagram'')"
    and "get body ''entry'' = Inr Undefined
         \<or> (\<exists>es. get body ''entry'' = Inr (Arr es)
                \<and> (\<forall>en \<in> set es. get en ''changes'' = Inr Undefined))"
  shows "POST e net (Inr body) tr
           = (\<lparr>status = 200, resp_body = Some ''EVENT_RECEIVED''\<rparr>, tr @ [Read_Body])
         \<and> fetches (snd (POST e net (Inr body) tr)) = fetches tr"
proof -
  have "POST e net (Inr body) tr
           = (\<lparr>status = 200, resp_body = Some ''EVENT_RECEIVED''\<rparr>, tr @ [Read_Body])"
    using assms
    by (auto simp: POST_def POST_try_def js_of_env_def for_of_entries_without_changes)
  then show ?thesis by (simp add: fetches_append)
qed

text \<open>Two entries without changes, and a batch without entries.\<close>

theorem POST_absent_sequences_witness:
  "PAGE_ACCESS_TOKEN example_env = Some ''token''
   \<and> get heartbeat_body ''object'' = Inr (Str ''instagram'')
   \<and> POST example_env (always (Json_Body (Obj []))) (Inr heartbeat_body) []
       = (\<lparr>status = 200, resp_body = Some ''EVENT_RECEIVED''\<rparr>, [Read_Body])
   \<and> POST example_env (always (Json_Body (Obj []))) (Inr (Obj [(''object'', Str ''instagram'')])) []
       = (\<lparr>status = 200, resp_body = Some ''EVENT_RECEIVED''\<rparr>, [Read_Body])"
proof -
  have a: "PAGE_ACCESS_TOKEN example_env = Some ''token''" by (simp add: example_env_def)
  have b: "''token'' \<noteq> []" by simp
  have c: "get heartbeat_body ''object'' = Inr (Str ''instagram'')"
    by (simp add: heartbeat_body_def)
  have d: "get heartbeat_body ''entry'' = Inr Undefined
         \<or> (\<exists>es. get heartbeat_body ''entry'' = Inr (Arr es)
                \<and> (\<forall>en \<in> set es. get en ''changes'' = Inr Undefined))"
    by (simp add: heartbeat_body_def)
  have c': "get (Obj [(''object'', Str ''instagram'')]) ''object'' = Inr (Str ''instagram'')"
    by simp
  have d': "get (Obj [(''object'', Str ''instagram'')]) ''entry'' = Inr Undefined
         \<or> (\<exists>es. get (Obj [(''object'', Str ''instagram'')]) ''entry'' = Inr (Arr es)
                \<and> (\<forall>en \<in> set es. get en ''changes'' = Inr Undefined))"
    by simp
  show ?thesis
    using POST_absent_sequences [OF a b c d, of "always (Json_Body (Obj []))" "[]"]
      POST_absent_sequences [OF a b c' d', of "always (Json_Body (Obj []))" "[]"] a c
    by simp
qed

text \<open>
  Claim C10. A comment event whose text contains the keyword but whose \<^verbatim>\<open>comment_id\<close>
  is the empty string, or whose text is the empty string, is skipped like one without
  the field: nothing is sent for it, the loop goes on with the events after it, and a
  batch of the declared shape containing it still ends in the success acknowledgment,
  with the replies for the other events only.
\<close>

theorem empty_string_treated_as_absent:
  assumes "field c = ''comments''"
    and "(\<exists>t. comment_text (change_val c) = Some t \<and> keyword_found t)
           \<and> comment_id (change_val c) = Some []
         \<or> comment_text (change_val c) = Some []"
  shows "process_change e net (js_of_change c) tr = (Inr (), tr @ [Console Skipping_Comment])
         \<and> for_of (process_change e net) (js_of_change c # rest) tr
             = for_of (process_change e net) rest (tr @ [Console Skipping_Comment])
         \<and> (PAGE_ACCESS_TOKEN e = Some tok \<and> tok \<noteq> [] \<and> object p = ''instagram''
              \<and> c \<in> set (batch_changes p)
            \<longrightarrow> fst (POST e net (Inr (js_of_payload p)) tr)
                  = \<lparr>status = 200, resp_body = Some ''EVENT_RECEIVED''\<rparr>
                \<and> fetches (snd (POST e net (Inr (js_of_payload p)) tr))
                  = fetches tr @ map (reply_request e)
                      (comment_ids (filter actionable_comment (removeAll c (batch_changes p)))))"
proof -
  have skip: "process_change e net (js_of_change c) tr = (Inr (), tr @ [Console Skipping_Comment])"
    using assms by (auto simp: process_change_conforming split: option.splits)
  have na: "\<not> actionable_comment c"
    using assms by (auto simp: actionable_comment_def keyword_comment_def keyword_found_def)
  have rm: "filter actionable_comment (removeAll c cs) = filter actionable_comment cs" for cs
    using na by (induction cs) auto
  have batch: "PAGE_ACCESS_TOKEN e = Some tok \<and> tok \<noteq> [] \<and> object p = ''instagram''
              \<and> c \<in> set (batch_changes p)
            \<longrightarrow> fst (POST e net (Inr (js_of_payload p)) tr)
                  = \<lparr>status = 200, resp_body = Some ''EVENT_RECEIVED''\<rparr>
                \<and> fetches (snd (POST e net (Inr (js_of_payload p)) tr))
                  = fetches tr @ map (reply_request e)
                      (comment_ids (filter actionable_comment (removeAll c (batch_changes p))))"
  proof (intro impI)
    assume h: "PAGE_ACCESS_TOKEN e = Some tok \<and> tok \<noteq> [] \<and> object p = ''instagram''
              \<and> c \<in> set (batch_changes p)"
    then obtain t where "POST e net (Inr (js_of_payload p)) tr
            = (\<lparr>status = 200, resp_body = Some ''EVENT_RECEIVED''\<rparr>, tr @ Read_Body # t)"
      and "fetches t = map (reply_request e)
                          (comment_ids (filter actionable_comment (batch_changes p)))"
      using POST_conforming [of e tok p net tr] by blast
    then show "fst (POST e net (Inr (js_of_payload p)) tr)
                  = \<lparr>status = 200, resp_body = Some ''EVENT_RECEIVED''\<rparr>
                \<and> fetches (snd (POST e net (Inr (js_of_payload p)) tr))
                  = fetches tr @ map (reply_request e)
                      (comment_ids (filter actionable_comment (removeAll c (batch_changes p))))"
      by (simp add: fetches_append rm)
  qed
  show ?thesis using skip batch by simp
qed

text \<open>A keyword comment with an empty id, followed by one with an id.\<close>

theorem empty_string_treated_as_absent_witness:
  "field (comment_event (Some ''roadmap'') (Some [])) = ''comments''
   \<and> comment_event (Some ''roadmap'') (Some []) \<in> set (batch_changes skipped_batch)
   \<and> process_change example_env (always (Json_Body (Obj [])))
        (js_of_change (comment_event (Some ''roadmap'') (Some []))) []
      = (Inr (), [Console Skipping_Comment])
   \<and> fst (POST example_env (always (Json_Body (Obj []))) (Inr (js_of_payload skipped_batch)) [])
      = \<lparr>status = 200, resp_body = Some ''EVENT_RECEIVED''\<rparr>
   \<and> fetches (snd (POST example_env (always (Json_Body (Obj [])))
                      (Inr (js_of_payload skipped_batch)) []))
      = [reply_request example_env (Str ''c2'')]"
proof -
  have a: "field (comment_event (Some ''roadmap'') (Some [])) = ''comments''"
    by (simp add: comment_event_def)
  have k: "keyword_found ''roadmap''" by code_simp
  have b: "(\<exists>t. comment_text (change_val (comment_event (Some ''roadmap'') (Some []))) = Some t
              \<and> keyword_found t)
           \<and> comment_id (change_val (comment_event (Some ''roadmap'') (Some []))) = Some []
         \<or> comment_text (change_val (comment_event (Some ''roadmap'') (Some []))) = Some []"
    using k by (simp add: comment_event_def)
  have c: "PAGE_ACCESS_TOKEN example_env = Some ''token'' \<and> ''token'' \<noteq> []
           \<and> object skipped_batch = ''instagram''
           \<and> comment_event (Some ''roadmap'') (Some []) \<in> set (batch_changes skipped_batch)"
    by (simp add: example_env_def skipped_batch_def batch_of_def batch_changes_def
          entry_changes_def)
  have d: "filter actionable_comment
             (removeAll (comment_event (Some ''roadmap'') (Some [])) (batch_changes skipped_batch))
           = [comment_event (Some ''my roadmap'') (Some ''c2'')]"
    by code_simp
  note inst = empty_string_treated_as_absent [OF a b, of example_env
      "always (Json_Body (Obj []))" "[]" "[]" "''token''" skipped_batch]
  show ?thesis
    using inst a c d by (simp add: comment_ids_def comment_event_def js_of_env_def)
qed

end
